theory Spec2Isabelle
  imports Complex_Main "HOL-Library.AList"
begin

section \<open>Values of the host language\<close>

text \<open>
  The processor of \<^verbatim>\<open>metadata.py\<close> works on a pandas table and on a mapping read from a
  JSON file. Strings are lists of code points below 256. A cell of a table is a number, a
  string or the missing-value marker; the type \<open>'n\<close> is the type of numeric values, with
  the equality of the host language on numbers (the marker is a constructor of its own,
  since it is equal to no number).
\<close>

datatype error = FileNotFoundError | ValueError | KeyError | TypeError

datatype 'n cell = Num 'n | Str string | Missing

type_synonym 'n series = "'n cell list"

type_synonym 'n dataframe = "(string \<times> 'n series) list"

text \<open>
  What \<^verbatim>\<open>df[name]\<close> yields: the column when one column has the label, and a table of
  all the columns with that label when several have it.
\<close>

datatype 'n selection = Series "'n series" | Frame "'n dataframe"

record column_info =
  new_name :: string
  type :: string
  categories :: "(string \<times> string) list option"

type_synonym column_mappings = "(string \<times> column_info) list"

subsection \<open>Dictionaries\<close>

text \<open>
  A dictionary is an association list in insertion order. Storing under a key that is
  present overwrites the value in place, storing under a new key appends
  (\<^const>\<open>AList.update\<close>); a dictionary comprehension stores its items one by one.
\<close>

definition dict_of_items :: "('k \<times> 'v) list \<Rightarrow> ('k \<times> 'v) list" where
  "dict_of_items kvs = foldl (\<lambda>d (k, v). AList.update k v d) [] kvs"

subsection \<open>Strings\<close>

definition quoted :: "string \<Rightarrow> string" where
  "quoted s = [CHR 0x27] @ s @ [CHR 0x27]"

definition digit_char :: "nat \<Rightarrow> char" where
  "digit_char d = char_of (48 + d)"

fun str_of_nat :: "nat \<Rightarrow> string" where
  "str_of_nat n = (if n < 10 then [digit_char n] else str_of_nat (n div 10) @ [digit_char (n mod 10)])"

text \<open>
  \<^verbatim>\<open>str.isdigit\<close>: the string is not empty and every character is a digit. Below 256
  the digits are \<^verbatim>\<open>0\<close> to \<^verbatim>\<open>9\<close> and the superscripts two, three and one.
\<close>

definition isdigit_char :: "char \<Rightarrow> bool" where
  "isdigit_char c = ((48 \<le> (of_char c :: nat) \<and> (of_char c :: nat) \<le> 57)
     \<or> c = CHR 0xB2 \<or> c = CHR 0xB3 \<or> c = CHR 0xB9)"

definition isdigit :: "string \<Rightarrow> bool" where
  "isdigit s = (s \<noteq> [] \<and> list_all isdigit_char s)"

text \<open>\<^verbatim>\<open>code.replace('.', '')\<close> deletes every occurrence of the point.\<close>

definition remove_points :: "string \<Rightarrow> string" where
  "remove_points s = filter (\<lambda>c. c \<noteq> CHR ''.'') s"

text \<open>
  \<^verbatim>\<open>float(code)\<close> on the strings that reach it, which are made of digits and points:
  digits with at most one point among them have their decimal value, and any other such
  string raises \<^verbatim>\<open>ValueError\<close> (\<open>None\<close>). The host language rounds the decimal value
  to the nearest double; the model keeps the decimal value, which is that double for the
  codes evaluated in this theory (\<^verbatim>\<open>1\<close>, \<^verbatim>\<open>1.0\<close>, \<^verbatim>\<open>2\<close>). The general results below
  take the conversion as a parameter \<open>to_float\<close> and hold for every conversion.
\<close>

definition ascii_digit :: "char \<Rightarrow> bool" where
  "ascii_digit c = (48 \<le> (of_char c :: nat) \<and> (of_char c :: nat) \<le> 57)"

definition digits_value :: "string \<Rightarrow> nat" where
  "digits_value ds = foldl (\<lambda>a c. 10 * a + (of_char c - 48)) 0 ds"

definition float_of_string :: "string \<Rightarrow> rat option" where
  "float_of_string s =
     (let whole = takeWhile (\<lambda>c. c \<noteq> CHR ''.'') s;
          frac = drop 1 (dropWhile (\<lambda>c. c \<noteq> CHR ''.'') s)
      in if list_all ascii_digit whole \<and> list_all ascii_digit frac \<and> whole @ frac \<noteq> [] then
           Some (of_nat (digits_value whole) + of_nat (digits_value frac) / 10 ^ length frac)
         else None)"

text \<open>The f-string \<^verbatim>\<open>f"{code}: {description}"\<close>.\<close>

definition label :: "string \<Rightarrow> string \<Rightarrow> string" where
  "label code description = code @ '': '' @ description"

subsection \<open>Tables\<close>

definition columns :: "'n dataframe \<Rightarrow> string list" where
  "columns df = map fst df"

definition getitem :: "'n dataframe \<Rightarrow> string \<Rightarrow> error + 'n selection" where
  "getitem df name =
     (case filter (\<lambda>col. fst col = name) df of
        [] \<Rightarrow> Inl KeyError
      | [col] \<Rightarrow> Inr (Series (snd col))
      | cols \<Rightarrow> Inr (Frame cols))"

text \<open>
  \<^verbatim>\<open>replace(to_replace, value)\<close> with two scalars: a new object in which every cell
  equal to \<open>to_replace\<close> holds \<open>val\<close>.
\<close>

definition replace_series :: "'n cell \<Rightarrow> 'n cell \<Rightarrow> 'n series \<Rightarrow> 'n series" where
  "replace_series to_replace val xs = map (\<lambda>x. if x = to_replace then val else x) xs"

fun replace :: "'n cell \<Rightarrow> 'n cell \<Rightarrow> 'n selection \<Rightarrow> 'n selection" where
  "replace to_replace val (Series xs) = Series (replace_series to_replace val xs)"
| "replace to_replace val (Frame cols) =
     Frame (map (\<lambda>col. (fst col, replace_series to_replace val (snd col))) cols)"

text \<open>\<^verbatim>\<open>df.rename(columns=m)\<close>: a label that is a key of \<open>m\<close> becomes its value.\<close>

definition rename :: "(string \<times> string) list \<Rightarrow> 'n dataframe \<Rightarrow> 'n dataframe" where
  "rename m df =
     map (\<lambda>col. (case map_of m (fst col) of Some new \<Rightarrow> new | None \<Rightarrow> fst col, snd col)) df"

section \<open>The processor\<close>

definition get_column_mapping :: "column_mappings \<Rightarrow> (string \<times> string) list" where
  "get_column_mapping cm = dict_of_items (map (\<lambda>(old_name, info). (old_name, new_name info)) cm)"

fun categorical_loop ::
  "(string \<times> (string \<times> string) list) list \<Rightarrow> column_mappings
     \<Rightarrow> (string \<times> (string \<times> string) list) list" where
  "categorical_loop categorical [] = categorical"
| "categorical_loop categorical ((old_name, info) # rest) =
     categorical_loop
       (if type info = ''categorical'' then
          (case categories info of
             None \<Rightarrow> categorical
           | Some cats \<Rightarrow>
               if cats = [] then categorical
               else AList.update (new_name info) cats categorical)
        else categorical) rest"

definition get_categorical_columns ::
  "column_mappings \<Rightarrow> (string \<times> (string \<times> string) list) list" where
  "get_categorical_columns cm = categorical_loop [] cm"

definition rename_columns :: "column_mappings \<Rightarrow> 'n dataframe \<Rightarrow> 'n dataframe \<times> string list" where
  "rename_columns cm df =
     (let column_mapping = get_column_mapping cm;
          existing_mapping =
            dict_of_items (filter (\<lambda>(old, new). old \<in> set (columns df)) column_mapping)
      in if existing_mapping = [] then
           (df, [''Warning: No matching columns found to rename''])
         else
           (rename existing_mapping df,
            (''Renamed '' @ str_of_nat (length existing_mapping) @ '' columns:'')
            # map (\<lambda>(old, new). ''  '' @ quoted old @ '' -> '' @ quoted new) existing_mapping))"

fun apply_mapping ::
  "(string \<Rightarrow> 'n option) \<Rightarrow> (string \<times> string) list \<Rightarrow> 'n selection \<Rightarrow> error + 'n selection" where
  "apply_mapping to_float [] series = Inr series"
| "apply_mapping to_float ((code, description) # rest) series =
     (if isdigit (remove_points code) then
        (case to_float code of
           None \<Rightarrow> Inl ValueError
         | Some numeric_code \<Rightarrow>
             apply_mapping to_float rest
               (replace (Num numeric_code) (Str (label code description)) series))
      else
        apply_mapping to_float rest
          (replace (Str code) (Str (label code description)) series))"

definition apply_categorical_mapping ::
  "(string \<Rightarrow> 'n option) \<Rightarrow> column_mappings \<Rightarrow> 'n dataframe \<Rightarrow> string
     \<Rightarrow> error + ('n selection option \<times> string list)" where
  "apply_categorical_mapping to_float cm df column_name =
     (if column_name \<notin> set (columns df) then
        Inr (None, [''Warning: Column '' @ quoted column_name @ '' not found in DataFrame''])
      else
        let categorical_cols = get_categorical_columns cm in
        case map_of categorical_cols column_name of
          None \<Rightarrow>
            (case getitem df column_name of
               Inl e \<Rightarrow> Inl e
             | Inr col \<Rightarrow>
                 Inr (Some col,
                   [''Warning: No categorical mapping found for '' @ quoted column_name]))
        | Some cats \<Rightarrow>
            (case getitem df column_name of
               Inl e \<Rightarrow> Inl e
             | Inr col \<Rightarrow>
                 (case apply_mapping to_float cats col of
                    Inl e \<Rightarrow> Inl e
                  | Inr series \<Rightarrow> Inr (Some series, []))))"

section \<open>Loading the metadata\<close>

text \<open>
  The constructor reads the metadata file and takes the value under the key
  \<^verbatim>\<open>column_mappings\<close>. \<open>files\<close> gives the content of the file at a path, or nothing when
  there is no such file; \<open>json_load\<close> is the parser of the host library, with no result
  when it raises \<^verbatim>\<open>JSONDecodeError\<close>. An object is the list of its items, in order, as
  the dictionary the parser builds. Subscripting a parsed value with a string raises
  \<^verbatim>\<open>KeyError\<close> on an object without the key and \<^verbatim>\<open>TypeError\<close> on a value that is not
  an object. Other failures of reading a file (permissions, encoding) are outside the
  model.
\<close>

datatype json = JNull | JBool bool | JNumber rat | JString string
  | JArray "json list" | JObject "(string \<times> json) list"

record processor =
  metadata_file :: string
  metadata :: json
  column_mappings :: json

definition load_metadata ::
  "(string \<Rightarrow> string option) \<Rightarrow> (string \<Rightarrow> json option) \<Rightarrow> string \<Rightarrow> error + json" where
  "load_metadata files json_load file =
     (case files file of
        None \<Rightarrow> Inl FileNotFoundError
      | Some content \<Rightarrow>
          (case json_load content of
             None \<Rightarrow> Inl ValueError
           | Some parsed \<Rightarrow> Inr parsed))"

fun subscript :: "json \<Rightarrow> string \<Rightarrow> error + json" where
  "subscript (JObject items) key =
     (case map_of items key of None \<Rightarrow> Inl KeyError | Some v \<Rightarrow> Inr v)"
| "subscript other key = Inl TypeError"

definition init ::
  "(string \<Rightarrow> string option) \<Rightarrow> (string \<Rightarrow> json option) \<Rightarrow> string \<Rightarrow> error + processor" where
  "init files json_load file =
     (case load_metadata files json_load file of
        Inl e \<Rightarrow> Inl e
      | Inr loaded \<Rightarrow>
          (case subscript loaded ''column_mappings'' of
             Inl e \<Rightarrow> Inl e
           | Inr mappings \<Rightarrow>
               Inr \<lparr>metadata_file = file, metadata = loaded, column_mappings = mappings\<rparr>))"


section \<open>The processor on a store of objects\<close>

text \<open>
  For the claim about copies, the same function on a memory of objects: every column of
  the table is a reference into a list of objects, and \<^verbatim>\<open>copy\<close>, \<^verbatim>\<open>replace\<close> and the
  selection of several columns allocate a new object, as the library does without
  \<^verbatim>\<open>inplace\<close>. \<^verbatim>\<open>df[name]\<close> of a single column is the column of the table itself.
  A reference of the table is below the length of the store and holds a series
  (\<open>well_formed\<close>); \<open>object_at\<close> is total only for the sake of the logic.
\<close>

type_synonym ref = nat

record 'n memory =
  table :: "(string \<times> ref) list"
  objects :: "'n selection list"

definition new_object :: "'n selection \<Rightarrow> 'n memory \<Rightarrow> ref \<times> 'n memory" where
  "new_object obj m = (length (objects m), m\<lparr>objects := objects m @ [obj]\<rparr>)"

definition object_at :: "'n memory \<Rightarrow> ref \<Rightarrow> 'n selection" where
  "object_at m r = (if r < length (objects m) then objects m ! r else Series [])"

definition column_at :: "'n memory \<Rightarrow> ref \<Rightarrow> 'n series" where
  "column_at m r = (case object_at m r of Series xs \<Rightarrow> xs | Frame cols \<Rightarrow> [])"

definition dataframe_of :: "'n memory \<Rightarrow> 'n dataframe" where
  "dataframe_of m = map (\<lambda>col. (fst col, column_at m (snd col))) (table m)"

definition well_formed :: "'n memory \<Rightarrow> bool" where
  "well_formed m =
     list_all (\<lambda>col. snd col < length (objects m) \<and>
                 (case objects m ! snd col of Series xs \<Rightarrow> True | Frame cols \<Rightarrow> False))
       (table m)"

definition getitem_ref :: "string \<Rightarrow> 'n memory \<Rightarrow> (error + ref) \<times> 'n memory" where
  "getitem_ref name m =
     (case filter (\<lambda>col. fst col = name) (table m) of
        [] \<Rightarrow> (Inl KeyError, m)
      | [col] \<Rightarrow> (Inr (snd col), m)
      | cols \<Rightarrow>
          (case new_object (Frame (map (\<lambda>col. (fst col, column_at m (snd col))) cols)) m of
             (r, m') \<Rightarrow> (Inr r, m')))"

definition copy_ref :: "ref \<Rightarrow> 'n memory \<Rightarrow> ref \<times> 'n memory" where
  "copy_ref r m = new_object (object_at m r) m"

definition replace_ref :: "'n cell \<Rightarrow> 'n cell \<Rightarrow> ref \<Rightarrow> 'n memory \<Rightarrow> ref \<times> 'n memory" where
  "replace_ref to_replace val r m = new_object (replace to_replace val (object_at m r)) m"

fun apply_mapping_ref ::
  "(string \<Rightarrow> 'n option) \<Rightarrow> (string \<times> string) list \<Rightarrow> ref \<Rightarrow> 'n memory
     \<Rightarrow> (error + ref) \<times> 'n memory" where
  "apply_mapping_ref to_float [] series m = (Inr series, m)"
| "apply_mapping_ref to_float ((code, description) # rest) series m =
     (if isdigit (remove_points code) then
        (case to_float code of
           None \<Rightarrow> (Inl ValueError, m)
         | Some numeric_code \<Rightarrow>
             (case replace_ref (Num numeric_code) (Str (label code description)) series m of
                (series', m') \<Rightarrow> apply_mapping_ref to_float rest series' m'))
      else
        (case replace_ref (Str code) (Str (label code description)) series m of
           (series', m') \<Rightarrow> apply_mapping_ref to_float rest series' m'))"

definition apply_categorical_mapping_ref ::
  "(string \<Rightarrow> 'n option) \<Rightarrow> column_mappings \<Rightarrow> string \<Rightarrow> 'n memory
     \<Rightarrow> (error + (ref option \<times> string list)) \<times> 'n memory" where
  "apply_categorical_mapping_ref to_float cm column_name m =
     (if column_name \<notin> set (map fst (table m)) then
        (Inr (None, [''Warning: Column '' @ quoted column_name @ '' not found in DataFrame'']), m)
      else
        let categorical_cols = get_categorical_columns cm in
        case map_of categorical_cols column_name of
          None \<Rightarrow>
            (case getitem_ref column_name m of
               (Inl e, m') \<Rightarrow> (Inl e, m')
             | (Inr col, m') \<Rightarrow>
                 (Inr (Some col,
                    [''Warning: No categorical mapping found for '' @ quoted column_name]), m'))
        | Some cats \<Rightarrow>
            (case getitem_ref column_name m of
               (Inl e, m') \<Rightarrow> (Inl e, m')
             | (Inr col, m') \<Rightarrow>
                 (case copy_ref col m' of
                    (series, m'') \<Rightarrow>
                      (case apply_mapping_ref to_float cats series m'' of
                         (Inl e, m''') \<Rightarrow> (Inl e, m''')
                       | (Inr result, m''') \<Rightarrow> (Inr (Some result, []), m''')))))"


section \<open>Notions used in the statements\<close>

text \<open>
  What one pass of the loop does to one cell. \<open>code_target\<close> is the value a code is
  compared with: the converted number for a code that passes the test of numeric codes
  (none when the conversion raises), the code itself otherwise. A cell \<open>matches\<close> a code
  when it is equal to that value, \<open>rewrite_cell\<close> runs the codes in order over one cell,
  and \<open>codes_convert\<close> says that no conversion raises. That
  \<open>apply_mapping\<close> is \<open>rewrite_cell\<close> on every cell is lemma
  \<open>apply_mapping_cells\<close>.
\<close>

definition code_target :: "(string \<Rightarrow> 'n option) \<Rightarrow> string \<Rightarrow> 'n cell option" where
  "code_target to_float code =
     (if isdigit (remove_points code) then map_option Num (to_float code) else Some (Str code))"

definition matches :: "(string \<Rightarrow> 'n option) \<Rightarrow> string \<Rightarrow> 'n cell \<Rightarrow> bool" where
  "matches to_float code x = (code_target to_float code = Some x)"

fun rewrite_cell :: "(string \<Rightarrow> 'n option) \<Rightarrow> (string \<times> string) list \<Rightarrow> 'n cell \<Rightarrow> 'n cell" where
  "rewrite_cell to_float [] x = x"
| "rewrite_cell to_float ((code, description) # rest) x =
     rewrite_cell to_float rest
       (if matches to_float code x then Str (label code description) else x)"

definition codes_convert :: "(string \<Rightarrow> 'n option) \<Rightarrow> (string \<times> string) list \<Rightarrow> bool" where
  "codes_convert to_float cats =
     list_all (\<lambda>(code, description). isdigit (remove_points code) \<longrightarrow> to_float code \<noteq> None) cats"

fun map_cells :: "('n cell \<Rightarrow> 'n cell) \<Rightarrow> 'n selection \<Rightarrow> 'n selection" where
  "map_cells f (Series xs) = Series (map f xs)"
| "map_cells f (Frame cols) = Frame (map (\<lambda>col. (fst col, map f (snd col))) cols)"

text \<open>
  \<^verbatim>\<open>df[name] = xs\<close>: every column with the label holds the new values, and a new label
  is appended.
\<close>

definition setitem :: "'n dataframe \<Rightarrow> string \<Rightarrow> 'n series \<Rightarrow> 'n dataframe" where
  "setitem df name xs =
     (if name \<in> set (columns df) then map (\<lambda>col. if fst col = name then (name, xs) else col) df
      else df @ [(name, xs)])"


text \<open>
  The test of numeric codes in the words of the specification: after removing at most one
  decimal point, the remaining characters are all digits.
\<close>

definition numeric_code_spec :: "string \<Rightarrow> bool" where
  "numeric_code_spec code =
     (isdigit code \<or>
      list_ex (\<lambda>i. code ! i = CHR ''.'' \<and> isdigit (take i code @ drop (Suc i) code))
        [0..<length code])"


text \<open>
  A memory extends another when the table is the same and the objects of the first are
  all there, unchanged, at their references.
\<close>

definition extends :: "'n memory \<Rightarrow> 'n memory \<Rightarrow> bool" where
  "extends m m' = (table m' = table m \<and> (\<exists>new. objects m' = objects m @ new))"


section \<open>Properties\<close>

subsection \<open>Columns that are not rewritten\<close>

lemma getitem_present:
  "name \<in> set (columns df) \<Longrightarrow> \<exists>col. getitem df name = Inr col"
proof -
  assume "name \<in> set (columns df)"
  then have "filter (\<lambda>col. fst col = name) df \<noteq> []"
    by (auto simp: columns_def filter_empty_conv)
  then show ?thesis
    by (auto simp: getitem_def split: list.splits)
qed

lemma getitem_unique:
  "filter (\<lambda>col. fst col = name) df = [(name, xs)] \<Longrightarrow> getitem df name = Inr (Series xs)"
  by (simp add: getitem_def)

lemma categorical_loop_origin:
  "map_of (categorical_loop acc cm) name = Some cats \<Longrightarrow>
   map_of acc name = Some cats \<or>
   (\<exists>old info. (old, info) \<in> set cm \<and> new_name info = name \<and> type info = ''categorical''
      \<and> categories info = Some cats \<and> cats \<noteq> [])"
proof (induction acc cm rule: categorical_loop.induct)
  case (1 categorical)
  then show ?case by simp
next
  case (2 categorical old_name info rest)
  from "2.prems" have "map_of (categorical_loop
       (if type info = ''categorical'' then
          (case categories info of
             None \<Rightarrow> categorical
           | Some cats \<Rightarrow>
               if cats = [] then categorical
               else AList.update (new_name info) cats categorical)
        else categorical) rest) name = Some cats"
    by simp
  from "2.IH" [OF this] show ?case
    by (auto simp: update_conv' split: if_splits option.splits)
qed

lemma categorical_entry_origin:
  "map_of (get_categorical_columns cm) name = Some cats \<Longrightarrow>
   \<exists>old info. (old, info) \<in> set cm \<and> new_name info = name \<and> type info = ''categorical''
      \<and> categories info = Some cats \<and> cats \<noteq> []"
  using categorical_loop_origin [of "[]" cm name cats]
  by (simp add: get_categorical_columns_def)

text \<open>
  Claim C6. For every table and every column name that is not a label of the table,
  \<open>apply_categorical_mapping\<close> prints the warning that the column was not found and
  returns \<^verbatim>\<open>None\<close>; it raises nothing.
\<close>

theorem absent_column_returns_none:
  assumes "column_name \<notin> set (columns df)"
  shows "apply_categorical_mapping to_float cm df column_name =
    Inr (None, [''Warning: Column '' @ quoted column_name @ '' not found in DataFrame''])"
  using assms by (simp add: apply_categorical_mapping_def)

text \<open>
  Claim C7. For a column that is in the table and has no entry in
  \<open>get_categorical_columns\<close>, \<open>apply_categorical_mapping\<close> prints the warning that no
  categorical mapping was found and returns \<^verbatim>\<open>df[column_name]\<close> as it is.
\<close>

theorem no_categorical_entry_unchanged:
  assumes "column_name \<in> set (columns df)"
    and "column_name \<notin> fst ` set (get_categorical_columns cm)"
  shows "\<exists>col. getitem df column_name = Inr col \<and>
    apply_categorical_mapping to_float cm df column_name =
      Inr (Some col, [''Warning: No categorical mapping found for '' @ quoted column_name])"
proof -
  from assms(1) obtain col where col: "getitem df column_name = Inr col"
    using getitem_present by blast
  from assms(2) have "map_of (get_categorical_columns cm) column_name = None"
    by (simp add: map_of_eq_None_iff)
  with assms(1) col show ?thesis
    by (simp add: apply_categorical_mapping_def)
qed


text \<open>
  Claim C10, as stated, fails. The result of \<open>get_categorical_columns\<close> is keyed by the
  new name, so a second entry with the same new name and categories of its own makes the
  column a key: the entry of \<^verbatim>\<open>SEX\<close> has type \<^verbatim>\<open>categorical\<close> and empty categories,
  the entry of \<^verbatim>\<open>Sex\<close> has the new name \<^verbatim>\<open>sex\<close> too, and the column \<^verbatim>\<open>sex\<close> is
  rewritten without a warning.
\<close>

theorem empty_categories_excluded_counterexample:
  "(''SEX'', \<lparr>new_name = ''sex'', type = ''categorical'', categories = Some []\<rparr>)
     \<in> set [(''SEX'', \<lparr>new_name = ''sex'', type = ''categorical'', categories = Some []\<rparr>),
             (''Sex'', \<lparr>new_name = ''sex'', type = ''categorical'',
                        categories = Some [(''1'', ''Male'')]\<rparr>)]
   \<and> ''sex'' \<in> fst ` set (get_categorical_columns
            [(''SEX'', \<lparr>new_name = ''sex'', type = ''categorical'', categories = Some []\<rparr>),
             (''Sex'', \<lparr>new_name = ''sex'', type = ''categorical'',
                        categories = Some [(''1'', ''Male'')]\<rparr>)])
   \<and> apply_categorical_mapping float_of_string
            [(''SEX'', \<lparr>new_name = ''sex'', type = ''categorical'', categories = Some []\<rparr>),
             (''Sex'', \<lparr>new_name = ''sex'', type = ''categorical'',
                        categories = Some [(''1'', ''Male'')]\<rparr>)]
            [(''sex'', [Num 1, Num 2])] ''sex''
        = Inr (Some (Series [Str ''1: Male'', Num 2]), [])"
proof -
  let ?cm = "[(''SEX'', \<lparr>new_name = ''sex'', type = ''categorical'', categories = Some []\<rparr>),
             (''Sex'', \<lparr>new_name = ''sex'', type = ''categorical'',
                        categories = Some [(''1'', ''Male'')]\<rparr>)]"
  have cols: "get_categorical_columns ?cm = [(''sex'', [(''1'', ''Male'')])]"
    by (simp add: get_categorical_columns_def)
  have run: "apply_categorical_mapping float_of_string ?cm [(''sex'', [Num 1, Num 2])] ''sex''
        = Inr (Some (Series [Str ''1: Male'', Num 2]), [])"
    by code_simp
  from cols run show ?thesis by simp
qed

text \<open>
  Claim C10, amended. When the entry of a column has type \<^verbatim>\<open>categorical\<close> and its
  categories are null or empty, and no entry with the same new name has type
  \<^verbatim>\<open>categorical\<close> and categories that are not empty, the column is not a key of
  \<open>get_categorical_columns\<close>; for every table that has the column,
  \<open>apply_categorical_mapping\<close> prints the warning that no categorical mapping was found
  and returns the column as it is.
\<close>

theorem empty_categories_excluded:
  assumes "(old, info) \<in> set cm"
    and "type info = ''categorical''"
    and "categories info = None \<or> categories info = Some []"
    and "\<forall>(old', info') \<in> set cm. new_name info' = new_name info \<longrightarrow>
           type info' \<noteq> ''categorical'' \<or> categories info' = None \<or> categories info' = Some []"
  shows "new_name info \<notin> fst ` set (get_categorical_columns cm) \<and>
    (new_name info \<in> set (columns df) \<longrightarrow>
      (\<exists>col. getitem df (new_name info) = Inr col \<and>
        apply_categorical_mapping to_float cm df (new_name info) =
          Inr (Some col, [''Warning: No categorical mapping found for '' @ quoted (new_name info)])))"
proof -
  have none: "map_of (get_categorical_columns cm) (new_name info) = None"
  proof (cases "map_of (get_categorical_columns cm) (new_name info)")
    case None
    then show ?thesis .
  next
    case (Some cats)
    from categorical_entry_origin [OF this] obtain old' info' where
      "(old', info') \<in> set cm" "new_name info' = new_name info"
      "type info' = ''categorical''" "categories info' = Some cats" "cats \<noteq> []"
      by blast
    with assms(4) show ?thesis by auto
  qed
  then have excl: "new_name info \<notin> fst ` set (get_categorical_columns cm)"
    by (simp add: map_of_eq_None_iff)
  have "\<exists>col. getitem df (new_name info) = Inr col \<and>
        apply_categorical_mapping to_float cm df (new_name info) =
          Inr (Some col, [''Warning: No categorical mapping found for '' @ quoted (new_name info)])"
    if present: "new_name info \<in> set (columns df)"
  proof -
    from present obtain col where col: "getitem df (new_name info) = Inr col"
      using getitem_present by blast
    with present none show ?thesis
      by (simp add: apply_categorical_mapping_def)
  qed
  with excl show ?thesis by blast
qed

theorem absent_column_returns_none_witness:
  "''dob'' \<notin> set (columns [(''sex'', [Num (1::rat), Missing])]) \<and>
   apply_categorical_mapping float_of_string [] [(''sex'', [Num 1, Missing])] ''dob'' =
     Inr (None, [''Warning: Column '' @ quoted ''dob'' @ '' not found in DataFrame''])"
  using absent_column_returns_none [of "''dob''" "[(''sex'', [Num (1::rat), Missing])]" float_of_string "[]"]
  by (simp add: columns_def)

theorem no_categorical_entry_unchanged_witness:
  "''age'' \<in> set (columns [(''sex'', [Num (1::rat)]), (''age'', [Num 41, Missing])]) \<and>
   ''age'' \<notin> fst ` set (get_categorical_columns
      [(''SEX'', \<lparr>new_name = ''sex'', type = ''categorical'', categories = Some [(''1'', ''Male'')]\<rparr>),
       (''AGE'', \<lparr>new_name = ''age'', type = ''numeric'', categories = None\<rparr>)]) \<and>
   apply_categorical_mapping float_of_string
      [(''SEX'', \<lparr>new_name = ''sex'', type = ''categorical'', categories = Some [(''1'', ''Male'')]\<rparr>),
       (''AGE'', \<lparr>new_name = ''age'', type = ''numeric'', categories = None\<rparr>)]
      [(''sex'', [Num 1]), (''age'', [Num 41, Missing])] ''age'' =
     Inr (Some (Series [Num 41, Missing]),
          [''Warning: No categorical mapping found for '' @ quoted ''age''])"
proof -
  have a: "''age'' \<in> set (columns [(''sex'', [Num (1::rat)]), (''age'', [Num 41, Missing])])"
    by (simp add: columns_def)
  have b: "''age'' \<notin> fst ` set (get_categorical_columns
      [(''SEX'', \<lparr>new_name = ''sex'', type = ''categorical'', categories = Some [(''1'', ''Male'')]\<rparr>),
       (''AGE'', \<lparr>new_name = ''age'', type = ''numeric'', categories = None\<rparr>)])"
    by (simp add: get_categorical_columns_def)
  have c: "getitem [(''sex'', [Num (1::rat)]), (''age'', [Num 41, Missing])] ''age'' =
     Inr (Series [Num 41, Missing])"
    by (simp add: getitem_def)
  from no_categorical_entry_unchanged [OF a b, of float_of_string] c a b show ?thesis
    by auto
qed

theorem empty_categories_excluded_witness:
  "new_name \<lparr>new_name = ''sex'', type = ''categorical'', categories = Some []\<rparr>
     \<notin> fst ` set (get_categorical_columns
        [(''SEX'', \<lparr>new_name = ''sex'', type = ''categorical'', categories = Some []\<rparr>),
         (''Sex'', \<lparr>new_name = ''sex'', type = ''text'', categories = Some [(''1'', ''Male'')]\<rparr>),
         (''AGE'', \<lparr>new_name = ''age'', type = ''categorical'', categories = Some [(''1'', ''young'')]\<rparr>)]) \<and>
   apply_categorical_mapping float_of_string
      [(''SEX'', \<lparr>new_name = ''sex'', type = ''categorical'', categories = Some []\<rparr>),
       (''Sex'', \<lparr>new_name = ''sex'', type = ''text'', categories = Some [(''1'', ''Male'')]\<rparr>),
       (''AGE'', \<lparr>new_name = ''age'', type = ''categorical'', categories = Some [(''1'', ''young'')]\<rparr>)]
      [(''sex'', [Num 1, Num 2])] ''sex'' =
     Inr (Some (Series [Num 1, Num 2]),
          [''Warning: No categorical mapping found for '' @ quoted ''sex''])"
proof -
  let ?info = "\<lparr>new_name = ''sex'', type = ''categorical'', categories = Some []\<rparr>"
  let ?cm = "[(''SEX'', ?info),
         (''Sex'', \<lparr>new_name = ''sex'', type = ''text'', categories = Some [(''1'', ''Male'')]\<rparr>),
         (''AGE'', \<lparr>new_name = ''age'', type = ''categorical'', categories = Some [(''1'', ''young'')]\<rparr>)]"
  let ?df = "[(''sex'', [Num (1::rat), Num 2])]"
  have a: "(''SEX'', ?info) \<in> set ?cm" by simp
  have b: "type ?info = ''categorical''" by simp
  have c: "categories ?info = None \<or> categories ?info = Some []" by simp
  have d: "\<forall>(old', info') \<in> set ?cm. new_name info' = new_name ?info \<longrightarrow>
      type info' \<noteq> ''categorical'' \<or> categories info' = None \<or> categories info' = Some []"
    by simp
  have e: "new_name ?info \<in> set (columns ?df)" by (simp add: columns_def)
  have f: "getitem ?df (new_name ?info) = Inr (Series [Num 1, Num 2])"
    by (simp add: getitem_def)
  from empty_categories_excluded [OF a b c d, of ?df float_of_string] e f show ?thesis
    by auto
qed


subsection \<open>The rewriting loop, cell by cell\<close>

lemma replace_map_cells:
  "replace a b s = map_cells (\<lambda>x. if x = a then b else x) s"
  by (cases s) (simp_all add: replace_series_def)

lemma map_cells_comp: "map_cells f (map_cells g s) = map_cells (f \<circ> g) s"
  by (cases s) simp_all

lemma apply_mapping_fails:
  "\<not> codes_convert to_float cats \<Longrightarrow> apply_mapping to_float cats s = Inl ValueError"
  by (induction to_float cats s rule: apply_mapping.induct)
    (auto simp: codes_convert_def split: option.splits)

lemma map_cells_ext: "(\<And>x. f x = g x) \<Longrightarrow> map_cells f s = map_cells g s"
  by (cases s) simp_all

lemma rewrite_cell_step:
  "code_target to_float code = Some t \<Longrightarrow>
   map_cells (rewrite_cell to_float rest) (replace t (Str (label code description)) s)
     = map_cells (rewrite_cell to_float ((code, description) # rest)) s"
proof -
  assume t: "code_target to_float code = Some t"
  have "map_cells (rewrite_cell to_float rest) (replace t (Str (label code description)) s)
      = map_cells (rewrite_cell to_float rest \<circ> (\<lambda>x. if x = t then Str (label code description) else x)) s"
    by (simp only: replace_map_cells map_cells_comp)
  also have "\<dots> = map_cells (rewrite_cell to_float ((code, description) # rest)) s"
    by (rule map_cells_ext) (use t in \<open>auto simp: matches_def\<close>)
  finally show ?thesis .
qed

lemma apply_mapping_cells:
  "codes_convert to_float cats \<Longrightarrow>
   apply_mapping to_float cats s = Inr (map_cells (rewrite_cell to_float cats) s)"
proof (induction to_float cats s rule: apply_mapping.induct)
  case (1 to_float series)
  then show ?case by (cases series) simp_all
next
  case (2 to_float code description rest series)
  from "2.prems" have rest: "codes_convert to_float rest" by (simp add: codes_convert_def)
  show ?case
  proof (cases "isdigit (remove_points code)")
    case True
    with "2.prems" obtain n where n: "to_float code = Some n"
      by (auto simp: codes_convert_def)
    from True n have t: "code_target to_float code = Some (Num n)"
      by (simp add: code_target_def)
    have "apply_mapping to_float ((code, description) # rest) series =
      apply_mapping to_float rest (replace (Num n) (Str (label code description)) series)"
      using True n by simp
    also have "\<dots> = Inr (map_cells (rewrite_cell to_float rest)
        (replace (Num n) (Str (label code description)) series))"
      by (rule "2.IH"(1) [OF True n rest])
    finally show ?thesis by (simp only: rewrite_cell_step [OF t])
  next
    case False
    then have t: "code_target to_float code = Some (Str code)"
      by (simp add: code_target_def)
    have "apply_mapping to_float ((code, description) # rest) series =
      apply_mapping to_float rest (replace (Str code) (Str (label code description)) series)"
      using False by simp
    also have "\<dots> = Inr (map_cells (rewrite_cell to_float rest)
        (replace (Str code) (Str (label code description)) series))"
      by (rule "2.IH"(2) [OF False rest])
    finally show ?thesis by (simp only: rewrite_cell_step [OF t])
  qed
qed

lemma rewrite_cell_unmatched:
  "\<forall>(c, d) \<in> set cats. \<not> matches to_float c x \<Longrightarrow> rewrite_cell to_float cats x = x"
  by (induction to_float cats x rule: rewrite_cell.induct) auto

lemma rewrite_cell_append:
  "rewrite_cell to_float (pre @ post) x = rewrite_cell to_float post (rewrite_cell to_float pre x)"
  by (induction to_float pre x rule: rewrite_cell.induct) auto

lemma label_not_numeric: "\<not> isdigit (remove_points (label c d))"
  by (auto simp: isdigit_def label_def remove_points_def isdigit_char_def)

lemma matches_label: "matches to_float c' (Str (label c d)) \<longleftrightarrow> c' = label c d"
  by (auto simp: matches_def code_target_def label_not_numeric)

lemma rewrite_cell_first_match:
  assumes "\<forall>(c, d) \<in> set pre. \<not> matches to_float c x"
    and "matches to_float code x"
    and "label code description \<notin> fst ` set post"
  shows "rewrite_cell to_float (pre @ (code, description) # post) x = Str (label code description)"
proof -
  have "\<forall>(c, d) \<in> set post. \<not> matches to_float c (Str (label code description))"
    using assms(3) by (force simp: matches_label)
  then have "rewrite_cell to_float post (Str (label code description)) = Str (label code description)"
    by (rule rewrite_cell_unmatched)
  with assms(1,2) show ?thesis
    by (simp add: rewrite_cell_append rewrite_cell_unmatched)
qed

lemma rewrite_cell_cases:
  "(rewrite_cell to_float cats x = x \<and> (\<forall>(c, d) \<in> set cats. \<not> matches to_float c x))
   \<or> (\<exists>(c, d) \<in> set cats. rewrite_cell to_float cats x = Str (label c d))
   \<or> (\<exists>(c, d) \<in> set cats. \<exists>(c', d') \<in> set cats. c' = label c d)"
proof (induction to_float cats x rule: rewrite_cell.induct)
  case (1 to_float x)
  then show ?case by simp
next
  case (2 to_float code description rest x)
  show ?case
  proof (cases "matches to_float code x")
    case True
    from "2.IH" have "(rewrite_cell to_float rest (Str (label code description)) = Str (label code description)
        \<and> (\<forall>(c, d) \<in> set rest. \<not> matches to_float c (Str (label code description))))
      \<or> (\<exists>(c, d) \<in> set rest. rewrite_cell to_float rest (Str (label code description)) = Str (label c d))
      \<or> (\<exists>(c, d) \<in> set rest. \<exists>(c', d') \<in> set rest. c' = label c d)"
      using True by simp
    then show ?thesis using True by (simp; blast)
  next
    case False
    with "2.IH" show ?thesis by (simp; blast)
  qed
qed

lemma rewrite_cell_idem:
  assumes "\<forall>(c, d) \<in> set cats. label c d \<notin> fst ` set cats"
  shows "rewrite_cell to_float cats (rewrite_cell to_float cats x) = rewrite_cell to_float cats x"
proof -
  from assms have no: "\<not> (\<exists>(c, d) \<in> set cats. \<exists>(c', d') \<in> set cats. c' = label c d)"
    by force
  from rewrite_cell_cases [of to_float cats x] no
  consider "rewrite_cell to_float cats x = x" "\<forall>(c, d) \<in> set cats. \<not> matches to_float c x"
    | c d where "(c, d) \<in> set cats" "rewrite_cell to_float cats x = Str (label c d)"
    by blast
  then show ?thesis
  proof cases
    case 1
    then show ?thesis by simp
  next
    case 2
    have "\<forall>(c', d') \<in> set cats. \<not> matches to_float c' (Str (label c d))"
      using assms 2(1) by (force simp: matches_label)
    then have "rewrite_cell to_float cats (Str (label c d)) = Str (label c d)"
      by (rule rewrite_cell_unmatched)
    with 2 show ?thesis by simp
  qed
qed

lemma getitem_Inr_present: "getitem df name = Inr col \<Longrightarrow> name \<in> set (columns df)"
proof -
  assume "getitem df name = Inr col"
  then have "filter (\<lambda>col. fst col = name) df \<noteq> []"
    by (auto simp: getitem_def)
  then obtain c where "c \<in> set df" "fst c = name"
    by (auto simp: filter_empty_conv)
  then show ?thesis by (auto simp: columns_def)
qed

lemma apply_categorical_mapping_rewrite:
  assumes "map_of (get_categorical_columns cm) column_name = Some cats"
    and "getitem df column_name = Inr col"
  shows "apply_categorical_mapping to_float cm df column_name =
    (if codes_convert to_float cats then Inr (Some (map_cells (rewrite_cell to_float cats) col), [])
     else Inl ValueError)"
  using assms getitem_Inr_present [OF assms(2)]
  by (simp add: apply_categorical_mapping_def apply_mapping_cells apply_mapping_fails)

text \<open>
  Claim C4. For a column whose categories are \<^verbatim>\<open>{"1": "Male", "2": "Female"}\<close> and whose
  values are the numbers 1.0, 2.0, 1.0, \<open>apply_categorical_mapping\<close> returns
  \<^verbatim>\<open>1: Male\<close>, \<^verbatim>\<open>2: Female\<close>, \<^verbatim>\<open>1: Male\<close> and prints nothing.
\<close>

theorem male_female_example:
  assumes "map_of (get_categorical_columns cm) column_name = Some [(''1'', ''Male''), (''2'', ''Female'')]"
    and "getitem df column_name = Inr (Series [Num 1, Num 2, Num 1])"
  shows "apply_categorical_mapping float_of_string cm df column_name =
    Inr (Some (Series [Str ''1: Male'', Str ''2: Female'', Str ''1: Male'']), [])"
proof -
  have "apply_mapping float_of_string [(''1'', ''Male''), (''2'', ''Female'')]
      (Series [Num 1, Num 2, Num 1]) =
    Inr (Series [Str ''1: Male'', Str ''2: Female'', Str ''1: Male''])"
    by code_simp
  with assms getitem_Inr_present [OF assms(2)] show ?thesis
    by (simp add: apply_categorical_mapping_def)
qed

theorem male_female_example_witness:
  "apply_categorical_mapping float_of_string
     [(''SEX'', \<lparr>new_name = ''sex'', type = ''categorical'',
                 categories = Some [(''1'', ''Male''), (''2'', ''Female'')]\<rparr>)]
     [(''id'', [Num 7, Num 8, Num 9]), (''sex'', [Num 1, Num 2, Num 1])] ''sex'' =
   Inr (Some (Series [Str ''1: Male'', Str ''2: Female'', Str ''1: Male'']), [])"
proof -
  let ?cm = "[(''SEX'', \<lparr>new_name = ''sex'', type = ''categorical'',
                 categories = Some [(''1'', ''Male''), (''2'', ''Female'')]\<rparr>)]"
  let ?df = "[(''id'', [Num (7::rat), Num 8, Num 9]), (''sex'', [Num 1, Num 2, Num 1])]"
  have a: "map_of (get_categorical_columns ?cm) ''sex'' = Some [(''1'', ''Male''), (''2'', ''Female'')]"
    by (simp add: get_categorical_columns_def)
  have b: "getitem ?df ''sex'' = Inr (Series [Num 1, Num 2, Num 1])"
    by (simp add: getitem_def)
  from male_female_example [OF a b] show ?thesis .
qed

text \<open>
  Claim C2, as stated, fails. The codes \<^verbatim>\<open>1\<close> and \<^verbatim>\<open>1.0\<close> both match the cell 1.0;
  the first rewrites it, the rewritten cell is a string that the second no longer
  matches, so the cell ends as the rewrite of the earlier code and not of the later one.
\<close>

theorem later_code_wins_counterexample:
  "matches float_of_string ''1'' (Num 1) \<and> matches float_of_string ''1.0'' (Num 1) \<and>
   apply_categorical_mapping float_of_string
     [(''SEX'', \<lparr>new_name = ''sex'', type = ''categorical'',
                 categories = Some [(''1'', ''Male''), (''1.0'', ''Man'')]\<rparr>)]
     [(''sex'', [Num 1])] ''sex'' = Inr (Some (Series [Str ''1: Male'']), []) \<and>
   Str ''1: Male'' \<noteq> (Str (label ''1.0'' ''Man'') :: rat cell)"
  by code_simp

text \<open>
  Claim C2, amended. The codes are applied in the order of the categories; when no
  conversion raises, a cell matched by a code and by no earlier code ends as the rewrite
  of that code (the earliest code that matches wins), provided that no later code is
  equal to the rewritten string.
\<close>

theorem first_matching_code_wins:
  assumes "map_of (get_categorical_columns cm) column_name = Some (pre @ (code, description) # post)"
    and "getitem df column_name = Inr (Series xs)"
    and "codes_convert to_float (pre @ (code, description) # post)"
    and "i < length xs"
    and "\<forall>(c, d) \<in> set pre. \<not> matches to_float c (xs ! i)"
    and "matches to_float code (xs ! i)"
    and "label code description \<notin> fst ` set post"
  shows "\<exists>ys. apply_categorical_mapping to_float cm df column_name = Inr (Some (Series ys), [])
    \<and> length ys = length xs \<and> ys ! i = Str (label code description)"
proof -
  let ?cats = "pre @ (code, description) # post"
  have "apply_categorical_mapping to_float cm df column_name =
      Inr (Some (Series (map (rewrite_cell to_float ?cats) xs)), [])"
    using apply_categorical_mapping_rewrite [OF assms(1,2), of to_float] assms(3) by simp
  moreover have "map (rewrite_cell to_float ?cats) xs ! i = Str (label code description)"
    using assms(4) rewrite_cell_first_match [OF assms(5,6,7)] by simp
  ultimately show ?thesis by simp
qed

theorem first_matching_code_wins_witness:
  "\<exists>ys. apply_categorical_mapping float_of_string
     [(''SEX'', \<lparr>new_name = ''sex'', type = ''categorical'',
                 categories = Some [(''2'', ''Female''), (''1'', ''Male''), (''1.0'', ''Man'')]\<rparr>)]
     [(''sex'', [Num 2, Num 1])] ''sex'' = Inr (Some (Series ys), [])
    \<and> length ys = length [Num (2::rat), Num 1] \<and> ys ! 1 = Str (label ''1'' ''Male'')"
proof -
  let ?cm = "[(''SEX'', \<lparr>new_name = ''sex'', type = ''categorical'',
                 categories = Some [(''2'', ''Female''), (''1'', ''Male''), (''1.0'', ''Man'')]\<rparr>)]"
  let ?df = "[(''sex'', [Num (2::rat), Num 1])]"
  have a: "map_of (get_categorical_columns ?cm) ''sex'' =
      Some ([(''2'', ''Female'')] @ (''1'', ''Male'') # [(''1.0'', ''Man'')])"
    by (simp add: get_categorical_columns_def)
  have b: "getitem ?df ''sex'' = Inr (Series [Num 2, Num 1])"
    by (simp add: getitem_def)
  have c: "codes_convert float_of_string ([(''2'', ''Female'')] @ (''1'', ''Male'') # [(''1.0'', ''Man'')])"
    by code_simp
  have d: "1 < length [Num (2::rat), Num 1]" by simp
  have e: "\<forall>(c, d) \<in> set [(''2'', ''Female'')]. \<not> matches float_of_string c ([Num (2::rat), Num 1] ! 1)"
    by code_simp
  have f: "matches float_of_string ''1'' ([Num (2::rat), Num 1] ! 1)"
    by code_simp
  have g: "label ''1'' ''Male'' \<notin> fst ` set [(''1.0'', ''Man'')]"
    by code_simp
  from first_matching_code_wins [OF a b c d e f g] show ?thesis .
qed

text \<open>
  Claim C1. The code \<^verbatim>\<open>1.2.3\<close> is not numeric in the words of the specification, and
  the test of the source accepts it, since it removes every point; the conversion then
  raises \<^verbatim>\<open>ValueError\<close> and the call returns no column, where the claim has the code
  compared as a string with the cell \<^verbatim>\<open>1.2.3\<close>.
\<close>

theorem multi_point_code_raises:
  "isdigit (remove_points ''1.2.3'') \<and> \<not> numeric_code_spec ''1.2.3'' \<and>
   apply_categorical_mapping float_of_string
     [(''GRADE'', \<lparr>new_name = ''grade'', type = ''categorical'',
                   categories = Some [(''1.2.3'', ''third'')]\<rparr>)]
     [(''grade'', [Str ''1.2.3'', Str ''x''])] ''grade'' = (Inl ValueError :: error + (rat selection option \<times> string list))"
  by code_simp

lemma getitem_Series_filter:
  "getitem df name = Inr (Series xs) \<Longrightarrow> \<exists>c. filter (\<lambda>col. fst col = name) df = [c] \<and> snd c = xs"
  by (auto simp: getitem_def split: list.splits)

lemma columns_setitem:
  "name \<in> set (columns df) \<Longrightarrow> columns (setitem df name ys) = columns df"
  by (auto simp: setitem_def columns_def)

lemma getitem_setitem:
  assumes "getitem df name = Inr (Series xs)"
  shows "getitem (setitem df name ys) name = Inr (Series ys)"
proof -
  from assms obtain c where c: "filter (\<lambda>col. fst col = name) df = [c]"
    using getitem_Series_filter by blast
  let ?f = "\<lambda>col. if fst col = name then (name, ys) else col"
  have "filter (\<lambda>col. fst col = name) (map ?f df)
      = map ?f (filter (\<lambda>col. fst col = name) df)"
    by (induction df) auto
  with c have "filter (\<lambda>col. fst col = name) (map ?f df) = [?f c]" by simp
  moreover from c have "c \<in> set (filter (\<lambda>col. fst col = name) df)" by simp
  then have "fst c = name" by simp
  ultimately have "filter (\<lambda>col. fst col = name) (map ?f df) = [(name, ys)]" by simp
  moreover have "name \<in> set (columns df)" using assms by (rule getitem_Inr_present)
  ultimately show ?thesis by (simp add: setitem_def getitem_def)
qed

text \<open>
  Claim C9. When no code of the column is equal to a rewritten string
  \<^verbatim>\<open>code: description\<close> of that column, writing the returned values back into the
  column and running \<open>apply_categorical_mapping\<close> again returns the same values (and
  prints the same).
\<close>

theorem substitution_idempotent:
  assumes "apply_categorical_mapping to_float cm df column_name = Inr (Some (Series ys), out)"
    and "\<forall>cats. map_of (get_categorical_columns cm) column_name = Some cats \<longrightarrow>
           (\<forall>(c, d) \<in> set cats. label c d \<notin> fst ` set cats)"
  shows "apply_categorical_mapping to_float cm (setitem df column_name ys) column_name =
    Inr (Some (Series ys), out)"
proof -
  have present: "column_name \<in> set (columns df)"
    using assms(1) by (auto simp: apply_categorical_mapping_def split: if_splits)
  then obtain col where col: "getitem df column_name = Inr col"
    using getitem_present by blast
  have present': "column_name \<in> set (columns (setitem df column_name ys))"
    using present by (simp add: columns_setitem)
  show ?thesis
  proof (cases "map_of (get_categorical_columns cm) column_name")
    case None
    with assms(1) present col have "col = Series ys"
      and out: "out = [''Warning: No categorical mapping found for '' @ quoted column_name]"
      by (simp_all add: apply_categorical_mapping_def)
    with col have "getitem (setitem df column_name ys) column_name = Inr (Series ys)"
      using getitem_setitem by blast
    with None present' out show ?thesis
      by (simp add: apply_categorical_mapping_def)
  next
    case (Some cats)
    from assms(1) apply_categorical_mapping_rewrite [OF Some col, of to_float]
    have conv: "codes_convert to_float cats"
      and res: "map_cells (rewrite_cell to_float cats) col = Series ys" and out: "out = []"
      by (auto split: if_splits)
    from res obtain xs where xs: "col = Series xs" and ys: "ys = map (rewrite_cell to_float cats) xs"
      by (cases col) auto
    from col xs have get': "getitem (setitem df column_name ys) column_name = Inr (Series ys)"
      using getitem_setitem by blast
    from assms(2) Some have "\<forall>(c, d) \<in> set cats. label c d \<notin> fst ` set cats" by blast
    then have "map (rewrite_cell to_float cats) ys = ys"
      unfolding ys by (simp add: rewrite_cell_idem)
    with apply_categorical_mapping_rewrite [OF Some get', of to_float] conv out
    show ?thesis by simp
  qed
qed

theorem substitution_idempotent_witness:
  "apply_categorical_mapping float_of_string
     [(''ANS'', \<lparr>new_name = ''answer'', type = ''categorical'',
                 categories = Some [(''Y'', ''Yes''), (''2'', ''No'')]\<rparr>)]
     (setitem [(''id'', [Num 1, Num 2, Num 3]), (''answer'', [Str ''Y'', Num 2, Missing])]
        ''answer'' [Str ''Y: Yes'', Str ''2: No'', Missing]) ''answer'' =
   Inr (Some (Series [Str ''Y: Yes'', Str ''2: No'', Missing]), [])"
proof -
  let ?cm = "[(''ANS'', \<lparr>new_name = ''answer'', type = ''categorical'',
                 categories = Some [(''Y'', ''Yes''), (''2'', ''No'')]\<rparr>)]"
  let ?df = "[(''id'', [Num (1::rat), Num 2, Num 3]), (''answer'', [Str ''Y'', Num 2, Missing])]"
  have a: "apply_categorical_mapping float_of_string ?cm ?df ''answer'' =
      Inr (Some (Series [Str ''Y: Yes'', Str ''2: No'', Missing]), [])"
    by code_simp
  have cats: "map_of (get_categorical_columns ?cm) ''answer'' = Some [(''Y'', ''Yes''), (''2'', ''No'')]"
    by (simp add: get_categorical_columns_def)
  have "\<forall>(c, d) \<in> set [(''Y'', ''Yes''), (''2'', ''No'')].
      label c d \<notin> fst ` set [(''Y'', ''Yes''), (''2'', ''No'')]"
    by (simp add: label_def)
  with cats have b: "\<forall>cats. map_of (get_categorical_columns ?cm) ''answer'' = Some cats \<longrightarrow>
           (\<forall>(c, d) \<in> set cats. label c d \<notin> fst ` set cats)"
    by simp
  from substitution_idempotent [OF a b] show ?thesis .
qed

text \<open>
  The test of the source and the test of the specification agree on every code with at
  most one point, and on no code that passes the test of the source with more points.
\<close>

lemma remove_points_no_point:
  "CHR ''.'' \<notin> set s \<Longrightarrow> remove_points s = s"
  by (induction s) (auto simp: remove_points_def)

lemma isdigit_no_point: "isdigit s \<Longrightarrow> CHR ''.'' \<notin> set s"
  by (auto simp: isdigit_def list_all_iff isdigit_char_def)

lemma remove_points_delete:
  "i < length s \<Longrightarrow> s ! i = CHR ''.'' \<Longrightarrow>
   remove_points (take i s @ drop (Suc i) s) = remove_points s"
proof -
  assume "i < length s" "s ! i = CHR ''.''"
  then have "s = take i s @ CHR ''.'' # drop (Suc i) s"
    by (metis id_take_nth_drop)
  then have "remove_points s = remove_points (take i s @ CHR ''.'' # drop (Suc i) s)" by simp
  then show ?thesis by (simp add: remove_points_def)
qed

lemma numeric_code_spec_implies:
  "numeric_code_spec code \<Longrightarrow> isdigit (remove_points code)"
  unfolding numeric_code_spec_def list_ex_iff
proof (elim disjE bexE conjE)
  assume "isdigit code"
  then show ?thesis using isdigit_no_point remove_points_no_point by metis
next
  fix i assume i: "i \<in> set [0..<length code]" "code ! i = CHR ''.''"
    and d: "isdigit (take i code @ drop (Suc i) code)"
  from d have "remove_points (take i code @ drop (Suc i) code) = take i code @ drop (Suc i) code"
    using isdigit_no_point remove_points_no_point by metis
  with remove_points_delete [of i code] i d show ?thesis by simp
qed

lemma numeric_code_spec_iff:
  "numeric_code_spec code \<longleftrightarrow>
     isdigit (remove_points code) \<and> length (filter (\<lambda>c. c = CHR ''.'') code) \<le> 1"
proof
  assume spec: "numeric_code_spec code"
  have "length (filter (\<lambda>c. c = CHR ''.'') code) \<le> 1"
    using spec unfolding numeric_code_spec_def list_ex_iff
  proof (elim disjE bexE conjE)
    assume "isdigit code"
    then have "filter (\<lambda>c. c = CHR ''.'') code = []"
      using isdigit_no_point by (auto simp: filter_empty_conv)
    then show ?thesis by simp
  next
    fix i assume i: "i \<in> set [0..<length code]" "code ! i = CHR ''.''"
      and d: "isdigit (take i code @ drop (Suc i) code)"
    from i have eq: "code = take i code @ CHR ''.'' # drop (Suc i) code"
      by (metis atLeastLessThan_iff id_take_nth_drop set_upt)
    from d have "CHR ''.'' \<notin> set (take i code @ drop (Suc i) code)" by (rule isdigit_no_point)
    then have "filter (\<lambda>c. c = CHR ''.'') (take i code) = []"
      "filter (\<lambda>c. c = CHR ''.'') (drop (Suc i) code) = []"
      by (auto simp: filter_empty_conv)
    then have "length (filter (\<lambda>c. c = CHR ''.'') (take i code @ CHR ''.'' # drop (Suc i) code)) = 1"
      by simp
    with eq show ?thesis by simp
  qed
  with spec show "isdigit (remove_points code) \<and> length (filter (\<lambda>c. c = CHR ''.'') code) \<le> 1"
    by (simp add: numeric_code_spec_implies)
next
  assume a: "isdigit (remove_points code) \<and> length (filter (\<lambda>c. c = CHR ''.'') code) \<le> 1"
  show "numeric_code_spec code"
  proof (cases "CHR ''.'' \<in> set code")
    case False
    with a show ?thesis by (simp add: remove_points_no_point numeric_code_spec_def)
  next
    case True
    then obtain i where i: "i < length code" "code ! i = CHR ''.''"
      by (auto simp: in_set_conv_nth)
    then have eq: "code = take i code @ CHR ''.'' # drop (Suc i) code"
      by (metis id_take_nth_drop)
    have "length (filter (\<lambda>c. c = CHR ''.'') code) =
      length (filter (\<lambda>c. c = CHR ''.'') (take i code @ CHR ''.'' # drop (Suc i) code))"
      using eq by simp
    with a have "filter (\<lambda>c. c = CHR ''.'') (take i code) = []"
      "filter (\<lambda>c. c = CHR ''.'') (drop (Suc i) code) = []"
      by auto
    then have "CHR ''.'' \<notin> set (take i code @ drop (Suc i) code)"
      by (auto simp: filter_empty_conv)
    then have "remove_points (take i code @ drop (Suc i) code) = take i code @ drop (Suc i) code"
      by (rule remove_points_no_point)
    with remove_points_delete [OF i] a have "isdigit (take i code @ drop (Suc i) code)" by simp
    with i show ?thesis by (auto simp: numeric_code_spec_def list_ex_iff)
  qed
qed


subsection \<open>Renaming columns\<close>

lemma update_fresh_key: "k \<notin> fst ` set al \<Longrightarrow> AList.update k v al = al @ [(k, v)]"
  by (induction al) auto

lemma foldl_update_distinct:
  "distinct (map fst (acc @ kvs)) \<Longrightarrow>
   foldl (\<lambda>d (k, v). AList.update k v d) acc kvs = acc @ kvs"
proof (induction kvs arbitrary: acc)
  case Nil
  then show ?case by simp
next
  case (Cons kv kvs)
  obtain k v where kv: "kv = (k, v)" by (cases kv)
  from Cons.prems kv have fresh: "k \<notin> fst ` set acc" by auto
  from Cons.prems kv have "distinct (map fst ((acc @ [(k, v)]) @ kvs))" by simp
  from Cons.IH [OF this] fresh kv show ?case
    by (simp add: update_fresh_key)
qed

lemma dict_of_items_distinct: "distinct (map fst kvs) \<Longrightarrow> dict_of_items kvs = kvs"
  using foldl_update_distinct [of "[]" kvs] by (simp add: dict_of_items_def)

lemma get_column_mapping_distinct:
  assumes "distinct (map fst cm)"
  shows "get_column_mapping cm = map (\<lambda>entry. (fst entry, new_name (snd entry))) cm"
proof -
  have eq: "(\<lambda>(old_name, info). (old_name, new_name info)) = (\<lambda>entry. (fst entry, new_name (snd entry)))"
    by (simp add: fun_eq_iff)
  have "map fst (map (\<lambda>entry. (fst entry, new_name (snd entry))) cm) = map fst cm"
    by (simp add: comp_def)
  with assms have "distinct (map fst (map (\<lambda>entry. (fst entry, new_name (snd entry))) cm))"
    by (simp only:)
  then show ?thesis
    unfolding get_column_mapping_def eq by (rule dict_of_items_distinct)
qed

lemma existing_mapping_distinct:
  assumes "distinct (map fst cm)"
  shows "dict_of_items (filter (\<lambda>(old, new). old \<in> S) (get_column_mapping cm))
    = map (\<lambda>entry. (fst entry, new_name (snd entry))) (filter (\<lambda>entry. fst entry \<in> S) cm)"
proof -
  have eq: "(\<lambda>(old, new). old \<in> S) = (\<lambda>entry. fst entry \<in> S)"
    by (simp add: fun_eq_iff)
  have f: "filter (\<lambda>entry. fst entry \<in> S) (map (\<lambda>entry. (fst entry, new_name (snd entry))) cm)
    = map (\<lambda>entry. (fst entry, new_name (snd entry))) (filter (\<lambda>entry. fst entry \<in> S) cm)"
    by (simp add: filter_map comp_def)
  have "distinct (map fst (filter (\<lambda>entry. fst entry \<in> S) cm))"
    using assms by (simp add: distinct_map_filter)
  moreover have "map fst (map (\<lambda>entry. (fst entry, new_name (snd entry)))
      (filter (\<lambda>entry. fst entry \<in> S) cm)) = map fst (filter (\<lambda>entry. fst entry \<in> S) cm)"
    by (simp add: comp_def)
  ultimately have "distinct (map fst (map (\<lambda>entry. (fst entry, new_name (snd entry)))
      (filter (\<lambda>entry. fst entry \<in> S) cm)))"
    by (simp only:)
  then show ?thesis
    unfolding get_column_mapping_distinct [OF assms] eq f by (rule dict_of_items_distinct)
qed

lemma map_of_existing:
  "map_of (map (\<lambda>entry. (fst entry, new_name (snd entry))) (filter (\<lambda>entry. fst entry \<in> S) cm)) n
    = (if n \<in> S then map_option new_name (map_of cm n) else None)"
  by (induction cm) auto

lemma rename_columns_table:
  assumes "distinct (map fst cm)"
  shows "fst (rename_columns cm df) =
    map (\<lambda>col. (case map_of cm (fst col) of Some info \<Rightarrow> new_name info | None \<Rightarrow> fst col, snd col)) df"
proof -
  let ?em = "map (\<lambda>entry. (fst entry, new_name (snd entry)))
      (filter (\<lambda>entry. fst entry \<in> set (columns df)) cm)"
  have em: "dict_of_items (filter (\<lambda>(old, new). old \<in> set (columns df)) (get_column_mapping cm)) = ?em"
    by (rule existing_mapping_distinct [OF assms])
  have ren: "rename ?em df =
    map (\<lambda>col. (case map_of cm (fst col) of Some info \<Rightarrow> new_name info | None \<Rightarrow> fst col, snd col)) df"
    unfolding rename_def
    by (rule map_cong) (auto simp: map_of_existing columns_def split: option.splits)
  show ?thesis
  proof (cases "?em = []")
    case True
    then have "rename ?em df = df" by (simp add: rename_def)
    with True ren em show ?thesis by (simp add: rename_columns_def Let_def)
  next
    case False
    with ren em show ?thesis by (simp add: rename_columns_def Let_def)
  qed
qed

lemma rename_columns_skips_absent:
  assumes "distinct (map fst cm)"
  shows "rename_columns cm df = rename_columns (filter (\<lambda>entry. fst entry \<in> set (columns df)) cm) df"
proof -
  let ?cm' = "filter (\<lambda>entry. fst entry \<in> set (columns df)) cm"
  have d': "distinct (map fst ?cm')" using assms by (simp add: distinct_map_filter)
  have "dict_of_items (filter (\<lambda>(old, new). old \<in> set (columns df)) (get_column_mapping cm))
     = dict_of_items (filter (\<lambda>(old, new). old \<in> set (columns df)) (get_column_mapping ?cm'))"
    unfolding existing_mapping_distinct [OF assms] existing_mapping_distinct [OF d'] by simp
  then show ?thesis by (simp add: rename_columns_def)
qed

text \<open>
  Claim C5. The mapping being a dictionary (its original names are distinct),
  \<open>rename_columns\<close> gives every column whose label is an original name of the mapping
  the new name of its entry and leaves every other label as it is; the values of all
  columns and their order are unchanged; when every column of the table is in the
  mapping, every column is renamed; and the entries whose original name is not a label
  of the table have no effect on the result or on what is printed.
\<close>

theorem rename_columns_renames:
  assumes "distinct (map fst cm)"
  shows "fst (rename_columns cm df) =
      map (\<lambda>col. (case map_of cm (fst col) of Some info \<Rightarrow> new_name info | None \<Rightarrow> fst col, snd col)) df
    \<and> map snd (fst (rename_columns cm df)) = map snd df
    \<and> (set (columns df) \<subseteq> fst ` set cm \<longrightarrow>
         (\<forall>i < length df. \<exists>info. (fst (df ! i), info) \<in> set cm \<and>
            fst (rename_columns cm df) ! i = (new_name info, snd (df ! i))))
    \<and> rename_columns cm df =
        rename_columns (filter (\<lambda>entry. fst entry \<in> set (columns df)) cm) df"
proof -
  let ?r = "map (\<lambda>col. (case map_of cm (fst col) of Some info \<Rightarrow> new_name info | None \<Rightarrow> fst col, snd col)) df"
  have tab: "fst (rename_columns cm df) = ?r" by (rule rename_columns_table [OF assms])
  have vals: "map snd ?r = map snd df" by (simp add: comp_def)
  have all: "\<forall>i < length df. \<exists>info. (fst (df ! i), info) \<in> set cm \<and>
            ?r ! i = (new_name info, snd (df ! i))"
    if sub: "set (columns df) \<subseteq> fst ` set cm"
  proof (intro allI impI)
    fix i assume i: "i < length df"
    then have "fst (df ! i) \<in> set (columns df)" by (simp add: columns_def)
    with sub have "fst (df ! i) \<in> fst ` set cm" by blast
    then obtain info where info: "map_of cm (fst (df ! i)) = Some info"
      by (metis map_of_eq_None_iff not_Some_eq)
    then have "(fst (df ! i), info) \<in> set cm" by (rule map_of_SomeD)
    with info i show "\<exists>info. (fst (df ! i), info) \<in> set cm \<and>
            ?r ! i = (new_name info, snd (df ! i))"
      by auto
  qed
  from tab vals all rename_columns_skips_absent [OF assms, of df] show ?thesis
    by simp
qed

theorem rename_columns_renames_witness:
  "rename_columns
     [(''SEX'', \<lparr>new_name = ''sex'', type = ''categorical'', categories = Some [(''1'', ''Male'')]\<rparr>),
      (''DOB'', \<lparr>new_name = ''birth'', type = ''date'', categories = None\<rparr>),
      (''AGE'', \<lparr>new_name = ''age'', type = ''numeric'', categories = None\<rparr>)]
     [(''AGE'', [Num (41::rat), Missing]), (''id'', [Num 1, Num 2]), (''SEX'', [Num 1, Str ''F''])]
   = ([(''age'', [Num 41, Missing]), (''id'', [Num 1, Num 2]), (''sex'', [Num 1, Str ''F''])],
      [''Renamed 2 columns:'', ''  '' @ quoted ''SEX'' @ '' -> '' @ quoted ''sex'',
       ''  '' @ quoted ''AGE'' @ '' -> '' @ quoted ''age''])"
proof -
  let ?cm = "[(''SEX'', \<lparr>new_name = ''sex'', type = ''categorical'', categories = Some [(''1'', ''Male'')]\<rparr>),
      (''DOB'', \<lparr>new_name = ''birth'', type = ''date'', categories = None\<rparr>),
      (''AGE'', \<lparr>new_name = ''age'', type = ''numeric'', categories = None\<rparr>)]"
  let ?df = "[(''AGE'', [Num (41::rat), Missing]), (''id'', [Num 1, Num 2]), (''SEX'', [Num 1, Str ''F''])]"
  have d: "distinct (map fst ?cm)" by simp
  have skip: "filter (\<lambda>entry. fst entry \<in> set (columns ?df)) ?cm =
     [(''SEX'', \<lparr>new_name = ''sex'', type = ''categorical'', categories = Some [(''1'', ''Male'')]\<rparr>),
      (''AGE'', \<lparr>new_name = ''age'', type = ''numeric'', categories = None\<rparr>)]"
    by (simp add: columns_def)
  have run: "rename_columns
     [(''SEX'', \<lparr>new_name = ''sex'', type = ''categorical'', categories = Some [(''1'', ''Male'')]\<rparr>),
      (''AGE'', \<lparr>new_name = ''age'', type = ''numeric'', categories = None\<rparr>)] ?df
   = ([(''age'', [Num 41, Missing]), (''id'', [Num 1, Num 2]), (''sex'', [Num 1, Str ''F''])],
      [''Renamed 2 columns:'', ''  '' @ quoted ''SEX'' @ '' -> '' @ quoted ''sex'',
       ''  '' @ quoted ''AGE'' @ '' -> '' @ quoted ''age''])"
    by code_simp
  from rename_columns_renames [OF d, of ?df] have
    "rename_columns ?cm ?df = rename_columns (filter (\<lambda>entry. fst entry \<in> set (columns ?df)) ?cm) ?df"
    by blast
  with skip run show ?thesis by simp
qed


subsection \<open>Errors of the constructor\<close>

text \<open>
  Claim C3, as stated, fails. A file whose content is the empty JSON object parses, and
  the constructor then raises \<^verbatim>\<open>KeyError\<close>, which is neither of the two kinds of the
  claim.
\<close>

theorem two_error_kinds_counterexample:
  "init (\<lambda>p. if p = ''db_metadata.json'' then Some ''{}'' else None)
        (\<lambda>content. if content = ''{}'' then Some (JObject []) else None)
        ''db_metadata.json'' = Inl KeyError
   \<and> KeyError \<noteq> FileNotFoundError \<and> KeyError \<noteq> ValueError"
  by (simp add: init_def load_metadata_def)

text \<open>
  Claim C3, amended. The constructor raises \<^verbatim>\<open>FileNotFoundError\<close> when the file is
  absent and \<^verbatim>\<open>ValueError\<close> when its content is not JSON. Content that parses is not
  checked against the schema: an object without the key \<^verbatim>\<open>column_mappings\<close> raises
  \<^verbatim>\<open>KeyError\<close>, a value that is not an object raises \<^verbatim>\<open>TypeError\<close>, and an object
  with the key gives a processor whatever the value under the key is.
\<close>

theorem init_error_kinds:
  "(files file = None \<longrightarrow> init files json_load file = Inl FileNotFoundError)
   \<and> (\<forall>content. files file = Some content \<and> json_load content = None \<longrightarrow>
         init files json_load file = Inl ValueError)
   \<and> (\<forall>content items. files file = Some content \<and> json_load content = Some (JObject items)
         \<and> ''column_mappings'' \<notin> fst ` set items \<longrightarrow>
         init files json_load file = Inl KeyError)
   \<and> (\<forall>content loaded. files file = Some content \<and> json_load content = Some loaded
         \<and> (\<forall>items. loaded \<noteq> JObject items) \<longrightarrow>
         init files json_load file = Inl TypeError)
   \<and> (\<forall>content items mappings. files file = Some content
         \<and> json_load content = Some (JObject items)
         \<and> map_of items ''column_mappings'' = Some mappings \<longrightarrow>
         init files json_load file =
           Inr \<lparr>metadata_file = file, metadata = JObject items, column_mappings = mappings\<rparr>)"
proof (intro conjI allI impI)
  fix content loaded
  assume a: "files file = Some content \<and> json_load content = Some loaded
         \<and> (\<forall>items. loaded \<noteq> JObject items)"
  then have "subscript loaded ''column_mappings'' = Inl TypeError"
    by (cases loaded) simp_all
  with a show "init files json_load file = Inl TypeError"
    by (simp add: init_def load_metadata_def)
next
  fix content items
  assume a: "files file = Some content \<and> json_load content = Some (JObject items)
         \<and> ''column_mappings'' \<notin> fst ` set items"
  then have "map_of items ''column_mappings'' = None"
    by (simp add: map_of_eq_None_iff)
  with a show "init files json_load file = Inl KeyError"
    by (simp add: init_def load_metadata_def)
qed (auto simp: init_def load_metadata_def)

theorem init_error_kinds_witness:
  "init (\<lambda>p. if p = ''a.json'' then Some ''[]'' else if p = ''b.json'' then Some ''{''
              else if p = ''c.json'' then Some ''{}'' else None)
        (\<lambda>content. if content = ''[]'' then Some (JArray [])
              else if content = ''{}'' then Some (JObject []) else None)
        ''a.json'' = Inl TypeError
   \<and> init (\<lambda>p. if p = ''a.json'' then Some ''[]'' else if p = ''b.json'' then Some ''{''
              else if p = ''c.json'' then Some ''{}'' else None)
        (\<lambda>content. if content = ''[]'' then Some (JArray [])
              else if content = ''{}'' then Some (JObject []) else None)
        ''b.json'' = Inl ValueError
   \<and> init (\<lambda>p. if p = ''a.json'' then Some ''[]'' else if p = ''b.json'' then Some ''{''
              else if p = ''c.json'' then Some ''{}'' else None)
        (\<lambda>content. if content = ''[]'' then Some (JArray [])
              else if content = ''{}'' then Some (JObject []) else None)
        ''c.json'' = Inl KeyError
   \<and> init (\<lambda>p. if p = ''a.json'' then Some ''[]'' else if p = ''b.json'' then Some ''{''
              else if p = ''c.json'' then Some ''{}'' else None)
        (\<lambda>content. if content = ''[]'' then Some (JArray [])
              else if content = ''{}'' then Some (JObject []) else None)
        ''d.json'' = Inl FileNotFoundError
   \<and> init (\<lambda>p. Some ''x'') (\<lambda>content. Some (JObject [(''column_mappings'', JNull)])) ''e.json''
       = Inr \<lparr>metadata_file = ''e.json'', metadata = JObject [(''column_mappings'', JNull)],
              column_mappings = JNull\<rparr>"
proof -
  let ?files = "\<lambda>p. if p = ''a.json'' then Some ''[]'' else if p = ''b.json'' then Some ''{''
              else if p = ''c.json'' then Some ''{}'' else None"
  let ?load = "\<lambda>content. if content = ''[]'' then Some (JArray [])
              else if content = ''{}'' then Some (JObject []) else None"
  have a: "?files ''a.json'' = Some ''[]'' \<and> ?load ''[]'' = Some (JArray [])
     \<and> (\<forall>items. JArray [] \<noteq> JObject items)"
    by simp
  have b: "?files ''b.json'' = Some ''{'' \<and> ?load ''{'' = None"
    by simp
  have c: "?files ''c.json'' = Some ''{}'' \<and> ?load ''{}'' = Some (JObject [])
     \<and> ''column_mappings'' \<notin> fst ` set ([] :: (string \<times> json) list)"
    by simp
  have d: "?files ''d.json'' = None" by simp
  have e: "(\<lambda>p. Some ''x'') ''e.json'' = Some ''x''
     \<and> (\<lambda>content. Some (JObject [(''column_mappings'', JNull)])) ''x''
          = Some (JObject [(''column_mappings'', JNull)])
     \<and> map_of [(''column_mappings'', JNull)] ''column_mappings'' = Some JNull"
    by simp
  from init_error_kinds [of ?files "''a.json''" ?load] a
  have "init ?files ?load ''a.json'' = Inl TypeError" by blast
  moreover from init_error_kinds [of ?files "''b.json''" ?load] b
  have "init ?files ?load ''b.json'' = Inl ValueError" by blast
  moreover from init_error_kinds [of ?files "''c.json''" ?load] c
  have "init ?files ?load ''c.json'' = Inl KeyError" by blast
  moreover from init_error_kinds [of ?files "''d.json''" ?load] d
  have "init ?files ?load ''d.json'' = Inl FileNotFoundError" by blast
  moreover from init_error_kinds [of "\<lambda>p. Some ''x''" "''e.json''"
      "\<lambda>content. Some (JObject [(''column_mappings'', JNull)])"] e
  have "init (\<lambda>p. Some ''x'') (\<lambda>content. Some (JObject [(''column_mappings'', JNull)])) ''e.json''
       = Inr \<lparr>metadata_file = ''e.json'', metadata = JObject [(''column_mappings'', JNull)],
              column_mappings = JNull\<rparr>"
    by blast
  ultimately show ?thesis by (intro conjI)
qed

subsection \<open>Nothing is modified\<close>

lemma extends_refl: "extends m m"
  by (simp add: extends_def)

lemma extends_trans:
  assumes "extends a b" and "extends b c"
  shows "extends a c"
proof -
  from assms(1) obtain n1 where n1: "objects b = objects a @ n1" and t1: "table b = table a"
    unfolding extends_def by blast
  from assms(2) obtain n2 where n2: "objects c = objects b @ n2" and t2: "table c = table b"
    unfolding extends_def by blast
  from n1 n2 have "objects c = objects a @ (n1 @ n2)" by simp
  with t1 t2 show ?thesis unfolding extends_def by (intro conjI exI) simp_all
qed

lemma extends_length:
  assumes "extends m m'"
  shows "length (objects m) \<le> length (objects m')"
proof -
  from assms obtain new where "objects m' = objects m @ new"
    unfolding extends_def by blast
  then show ?thesis by simp
qed

lemma extends_object_at:
  assumes "extends m m'" and "r < length (objects m)"
  shows "object_at m' r = object_at m r"
proof -
  from assms(1) obtain new where "objects m' = objects m @ new"
    unfolding extends_def by blast
  with assms(2) show ?thesis by (simp add: object_at_def nth_append)
qed

lemma new_object_extends:
  assumes "new_object obj m = (r, m')"
  shows "extends m m'"
proof -
  from assms have "m' = m\<lparr>objects := objects m @ [obj]\<rparr>"
    by (simp add: new_object_def)
  then show ?thesis unfolding extends_def by simp
qed

lemma new_object_fresh:
  assumes "new_object obj m = (r, m')"
  shows "r = length (objects m) \<and> object_at m' r = obj"
proof -
  from assms have "m' = m\<lparr>objects := objects m @ [obj]\<rparr>" and "r = length (objects m)"
    by (simp_all add: new_object_def)
  then show ?thesis by (simp add: object_at_def)
qed

lemma getitem_ref_extends: "getitem_ref name m = (res, m') \<Longrightarrow> extends m m'"
proof (cases "filter (\<lambda>col. fst col = name) (table m)")
  case Nil
  assume "getitem_ref name m = (res, m')"
  with Nil show ?thesis by (simp add: getitem_ref_def extends_refl)
next
  case (Cons c cs)
  assume g: "getitem_ref name m = (res, m')"
  show ?thesis
  proof (cases cs)
    case Nil
    with Cons g show ?thesis by (simp add: getitem_ref_def extends_refl)
  next
    case (Cons d ds)
    obtain r m1 where n: "new_object (Frame (map (\<lambda>col. (fst col, column_at m (snd col))) (c # d # ds))) m = (r, m1)"
      by (cases "new_object (Frame (map (\<lambda>col. (fst col, column_at m (snd col))) (c # d # ds))) m")
    with g \<open>filter (\<lambda>col. fst col = name) (table m) = c # cs\<close> Cons have "m' = m1"
      by (simp add: getitem_ref_def)
    with new_object_extends [OF n] show ?thesis by simp
  qed
qed

lemma apply_mapping_ref_extends:
  "apply_mapping_ref to_float cats series m = (res, m') \<Longrightarrow> extends m m'"
proof (induction to_float cats series m rule: apply_mapping_ref.induct)
  case (1 to_float series m)
  then show ?case by (simp add: extends_refl)
next
  case (2 to_float code description rest series m)
  show ?case
  proof (cases "isdigit (remove_points code)")
    case True
    show ?thesis
    proof (cases "to_float code")
      case None
      with True "2.prems" show ?thesis by (simp add: extends_refl)
    next
      case (Some n)
      obtain s1 m1 where r: "replace_ref (Num n) (Str (label code description)) series m = (s1, m1)"
        by (cases "replace_ref (Num n) (Str (label code description)) series m")
      with True Some "2.prems" have "apply_mapping_ref to_float rest s1 m1 = (res, m')" by simp
      from "2.IH"(1) [OF True Some r [symmetric] this] have "extends m1 m'" .
      moreover from r have "extends m m1" unfolding replace_ref_def by (rule new_object_extends)
      ultimately show ?thesis by (rule extends_trans [rotated])
    qed
  next
    case False
    obtain s1 m1 where r: "replace_ref (Str code) (Str (label code description)) series m = (s1, m1)"
      by (cases "replace_ref (Str code) (Str (label code description)) series m")
    with False "2.prems" have "apply_mapping_ref to_float rest s1 m1 = (res, m')" by simp
    from "2.IH"(2) [OF False r [symmetric] this] have "extends m1 m'" .
    moreover from r have "extends m m1" unfolding replace_ref_def by (rule new_object_extends)
    ultimately show ?thesis by (rule extends_trans [rotated])
  qed
qed


lemma replace_ref_fresh:
  assumes "replace_ref a b r m = (r', m')"
  shows "r' = length (objects m) \<and> extends m m' \<and> object_at m' r' = replace a b (object_at m r)"
  using assms new_object_fresh new_object_extends unfolding replace_ref_def by blast

lemma apply_mapping_ref_result:
  "apply_mapping_ref to_float cats series m = (Inr r, m') \<Longrightarrow>
   r = series \<and> cats = [] \<or> length (objects m) \<le> r"
proof (induction to_float cats series m rule: apply_mapping_ref.induct)
  case (1 to_float series m)
  then show ?case by simp
next
  case (2 to_float code description rest series m)
  show ?case
  proof (cases "isdigit (remove_points code)")
    case True
    show ?thesis
    proof (cases "to_float code")
      case None
      with True "2.prems" show ?thesis by simp
    next
      case (Some n)
      obtain s1 m1 where r: "replace_ref (Num n) (Str (label code description)) series m = (s1, m1)"
        by (cases "replace_ref (Num n) (Str (label code description)) series m")
      with True Some "2.prems" have "apply_mapping_ref to_float rest s1 m1 = (Inr r, m')" by simp
      from "2.IH"(1) [OF True Some r [symmetric] this]
      have "r = s1 \<and> rest = [] \<or> length (objects m1) \<le> r" .
      moreover from replace_ref_fresh [OF r] have "s1 = length (objects m)" "extends m m1" by simp_all
      moreover from this(2) have "length (objects m) \<le> length (objects m1)" by (rule extends_length)
      ultimately show ?thesis by auto
    qed
  next
    case False
    obtain s1 m1 where r: "replace_ref (Str code) (Str (label code description)) series m = (s1, m1)"
      by (cases "replace_ref (Str code) (Str (label code description)) series m")
    with False "2.prems" have "apply_mapping_ref to_float rest s1 m1 = (Inr r, m')" by simp
    from "2.IH"(2) [OF False r [symmetric] this]
    have "r = s1 \<and> rest = [] \<or> length (objects m1) \<le> r" .
    moreover from replace_ref_fresh [OF r] have "s1 = length (objects m)" "extends m m1" by simp_all
    moreover from this(2) have "length (objects m) \<le> length (objects m1)" by (rule extends_length)
    ultimately show ?thesis by auto
  qed
qed


lemma copy_ref_fresh:
  assumes "copy_ref r m = (r', m')"
  shows "r' = length (objects m) \<and> extends m m' \<and> object_at m' r' = object_at m r"
  using assms new_object_fresh new_object_extends unfolding copy_ref_def by blast

lemma apply_categorical_mapping_ref_extends:
  assumes "apply_categorical_mapping_ref to_float cm column_name m = (res, m')"
  shows "extends m m'"
proof (cases "column_name \<notin> set (map fst (table m))")
  case True
  with assms show ?thesis by (simp add: apply_categorical_mapping_ref_def extends_refl)
next
  case False
  obtain g m1 where g: "getitem_ref column_name m = (g, m1)"
    by (cases "getitem_ref column_name m")
  then have e1: "extends m m1" by (rule getitem_ref_extends)
  show ?thesis
  proof (cases g)
    case (Inl e)
    with assms False g e1 show ?thesis
      by (auto simp: apply_categorical_mapping_ref_def split: option.splits)
  next
    case (Inr col)
    show ?thesis
    proof (cases "map_of (get_categorical_columns cm) column_name")
      case None
      with assms False g Inr e1 show ?thesis
        by (auto simp: apply_categorical_mapping_ref_def)
    next
      case (Some cats)
      obtain series m2 where c: "copy_ref col m1 = (series, m2)"
        by (cases "copy_ref col m1")
      obtain a m3 where a: "apply_mapping_ref to_float cats series m2 = (a, m3)"
        by (cases "apply_mapping_ref to_float cats series m2")
      from assms False g Inr Some c a have "m' = m3"
        by (auto simp: apply_categorical_mapping_ref_def split: sum.splits)
      moreover from copy_ref_fresh [OF c] have "extends m1 m2" by simp
      moreover from a have "extends m2 m3" by (rule apply_mapping_ref_extends)
      ultimately show ?thesis using e1 by (blast intro: extends_trans)
    qed
  qed
qed

lemma apply_categorical_mapping_ref_fresh:
  assumes "apply_categorical_mapping_ref to_float cm column_name m = (Inr (Some r, out), m')"
    and "map_of (get_categorical_columns cm) column_name = Some cats"
  shows "length (objects m) \<le> r"
proof -
  have present: "\<not> column_name \<notin> set (map fst (table m))"
    using assms(1) by (auto simp: apply_categorical_mapping_ref_def split: if_splits)
  obtain g m1 where g: "getitem_ref column_name m = (g, m1)"
    by (cases "getitem_ref column_name m")
  then have e1: "extends m m1" by (rule getitem_ref_extends)
  from assms present g obtain col where col: "g = Inr col"
    by (cases g) (auto simp: apply_categorical_mapping_ref_def)
  obtain series m2 where c: "copy_ref col m1 = (series, m2)"
    by (cases "copy_ref col m1")
  obtain a m3 where a: "apply_mapping_ref to_float cats series m2 = (a, m3)"
    by (cases "apply_mapping_ref to_float cats series m2")
  from assms present g col c a have "a = Inr r"
    by (auto simp: apply_categorical_mapping_ref_def split: sum.splits)
  with a have "r = series \<and> cats = [] \<or> length (objects m2) \<le> r"
    using apply_mapping_ref_result by blast
  moreover from copy_ref_fresh [OF c] have "series = length (objects m1)" "extends m1 m2"
    by simp_all
  moreover from this(2) have "length (objects m1) \<le> length (objects m2)" by (rule extends_length)
  moreover from e1 have "length (objects m) \<le> length (objects m1)" by (rule extends_length)
  ultimately show ?thesis by auto
qed

lemma well_formed_ref:
  "well_formed m \<Longrightarrow> col \<in> set (table m) \<Longrightarrow> snd col < length (objects m)"
  by (auto simp: well_formed_def list_all_iff)

lemma extends_dataframe_of:
  assumes "extends m m'" and "well_formed m"
  shows "dataframe_of m' = dataframe_of m"
proof -
  from assms(1) have t: "table m' = table m" by (simp add: extends_def)
  have "map (\<lambda>col. (fst col, column_at m' (snd col))) (table m)
      = map (\<lambda>col. (fst col, column_at m (snd col))) (table m)"
  proof (rule map_cong [OF refl])
    fix col assume "col \<in> set (table m)"
    with assms(2) have "snd col < length (objects m)" by (rule well_formed_ref)
    with assms(1) have "object_at m' (snd col) = object_at m (snd col)"
      by (rule extends_object_at)
    then show "(fst col, column_at m' (snd col)) = (fst col, column_at m (snd col))"
      by (simp add: column_at_def)
  qed
  with t show ?thesis by (simp add: dataframe_of_def)
qed

text \<open>
  Claim C8. The call changes neither the table nor any object that was in the memory
  before it, so every column of the source table, the target column among them, holds
  its values afterwards; and when the column has a categorical entry, the returned
  reference is new: it is no column of the table.
\<close>

theorem copy_on_write:
  assumes "apply_categorical_mapping_ref to_float cm column_name m = (res, m')"
    and "well_formed m"
  shows "table m' = table m \<and> dataframe_of m' = dataframe_of m
    \<and> (\<forall>r < length (objects m). object_at m' r = object_at m r)
    \<and> (\<forall>r out. res = Inr (Some r, out)
          \<and> column_name \<in> fst ` set (get_categorical_columns cm) \<longrightarrow>
          length (objects m) \<le> r \<and> r \<notin> snd ` set (table m))"
proof -
  from assms(1) have e: "extends m m'" by (rule apply_categorical_mapping_ref_extends)
  then have t: "table m' = table m" by (simp add: extends_def)
  from e assms(2) have d: "dataframe_of m' = dataframe_of m" by (rule extends_dataframe_of)
  from e have o: "\<forall>r < length (objects m). object_at m' r = object_at m r"
    by (simp add: extends_object_at)
  have f: "length (objects m) \<le> r \<and> r \<notin> snd ` set (table m)"
    if "res = Inr (Some r, out) \<and> column_name \<in> fst ` set (get_categorical_columns cm)" for r out
  proof -
    from that obtain cats where "map_of (get_categorical_columns cm) column_name = Some cats"
      by (metis map_of_eq_None_iff not_Some_eq)
    with assms(1) that have len: "length (objects m) \<le> r"
      using apply_categorical_mapping_ref_fresh by blast
    have "r \<notin> snd ` set (table m)"
    proof
      assume "r \<in> snd ` set (table m)"
      then obtain col where "col \<in> set (table m)" "snd col = r" by auto
      with assms(2) have "r < length (objects m)" using well_formed_ref by blast
      with len show False by simp
    qed
    with len show ?thesis by simp
  qed
  from t d o f show ?thesis by blast
qed


theorem copy_on_write_witness:
  "apply_categorical_mapping_ref float_of_string
     [(''SEX'', \<lparr>new_name = ''sex'', type = ''categorical'',
                 categories = Some [(''1'', ''Male''), (''2'', ''Female'')]\<rparr>)] ''sex''
     \<lparr>table = [(''id'', 0), (''sex'', 1)],
      objects = [Series [Num 7, Num 8], Series [Num 1, Num 2]]\<rparr>
   = (Inr (Some 4, []),
      \<lparr>table = [(''id'', 0), (''sex'', 1)],
       objects = [Series [Num 7, Num 8], Series [Num 1, Num 2], Series [Num 1, Num 2],
                  Series [Str ''1: Male'', Num 2], Series [Str ''1: Male'', Str ''2: Female'']]\<rparr>)
   \<and> (4::nat) \<notin> snd ` set [(''id'', 0), (''sex'', 1)]
   \<and> dataframe_of \<lparr>table = [(''id'', 0), (''sex'', 1)],
       objects = [Series [Num 7, Num 8], Series [Num 1, Num 2], Series [Num 1, Num 2],
                  Series [Str ''1: Male'', Num 2], Series [Str ''1: Male'', Str ''2: Female'']]\<rparr>
     = [(''id'', [Num 7, Num 8]), (''sex'', [Num (1::rat), Num 2])]"
proof -
  let ?cm = "[(''SEX'', \<lparr>new_name = ''sex'', type = ''categorical'',
                 categories = Some [(''1'', ''Male''), (''2'', ''Female'')]\<rparr>)]"
  let ?m = "\<lparr>table = [(''id'', 0), (''sex'', 1)],
      objects = [Series [Num (7::rat), Num 8], Series [Num 1, Num 2]]\<rparr>"
  let ?m' = "\<lparr>table = [(''id'', 0), (''sex'', 1)],
       objects = [Series [Num (7::rat), Num 8], Series [Num 1, Num 2], Series [Num 1, Num 2],
                  Series [Str ''1: Male'', Num 2], Series [Str ''1: Male'', Str ''2: Female'']]\<rparr>"
  have run: "apply_categorical_mapping_ref float_of_string ?cm ''sex'' ?m = (Inr (Some 4, []), ?m')"
    by code_simp
  have wf: "well_formed ?m"
    by (simp add: well_formed_def)
  have cat: "''sex'' \<in> fst ` set (get_categorical_columns ?cm)"
    by (simp add: get_categorical_columns_def)
  have df: "dataframe_of ?m = [(''id'', [Num 7, Num 8]), (''sex'', [Num (1::rat), Num 2])]"
    by (simp add: dataframe_of_def column_at_def object_at_def)
  from copy_on_write [OF run wf] cat df run show ?thesis
    by simp
qed

subsection \<open>The store model computes the values of the value model\<close>

lemma apply_mapping_ref_values:
  "apply_mapping_ref to_float cats series m = (res, m') \<Longrightarrow>
   apply_mapping to_float cats (object_at m series) = map_sum id (object_at m') res"
proof (induction to_float cats series m rule: apply_mapping_ref.induct)
  case (1 to_float series m)
  then show ?case by auto
next
  case (2 to_float code description rest series m)
  show ?case
  proof (cases "isdigit (remove_points code)")
    case True
    show ?thesis
    proof (cases "to_float code")
      case None
      with True "2.prems" show ?thesis by auto
    next
      case (Some n)
      obtain s1 m1 where r: "replace_ref (Num n) (Str (label code description)) series m = (s1, m1)"
        by (cases "replace_ref (Num n) (Str (label code description)) series m")
      with True Some "2.prems" have "apply_mapping_ref to_float rest s1 m1 = (res, m')" by simp
      from "2.IH"(1) [OF True Some r [symmetric] this]
      have ih: "apply_mapping to_float rest (object_at m1 s1) = map_sum id (object_at m') res" .
      from replace_ref_fresh [OF r]
      have o: "object_at m1 s1 = replace (Num n) (Str (label code description)) (object_at m series)"
        by blast
      have "apply_mapping to_float ((code, description) # rest) (object_at m series)
        = apply_mapping to_float rest (object_at m1 s1)"
        unfolding o using True Some by simp
      with ih show ?thesis by (simp only:)
    qed
  next
    case False
    obtain s1 m1 where r: "replace_ref (Str code) (Str (label code description)) series m = (s1, m1)"
      by (cases "replace_ref (Str code) (Str (label code description)) series m")
    with False "2.prems" have "apply_mapping_ref to_float rest s1 m1 = (res, m')" by simp
    from "2.IH"(2) [OF False r [symmetric] this]
    have ih: "apply_mapping to_float rest (object_at m1 s1) = map_sum id (object_at m') res" .
    from replace_ref_fresh [OF r]
    have o: "object_at m1 s1 = replace (Str code) (Str (label code description)) (object_at m series)"
      by blast
    have "apply_mapping to_float ((code, description) # rest) (object_at m series)
      = apply_mapping to_float rest (object_at m1 s1)"
      unfolding o using False by simp
    with ih show ?thesis by (simp only:)
  qed
qed

lemma well_formed_series:
  assumes "well_formed m" and "col \<in> set (table m)"
  shows "object_at m (snd col) = Series (column_at m (snd col))"
proof -
  from assms have "snd col < length (objects m)"
    and "case objects m ! snd col of Series xs \<Rightarrow> True | Frame cols \<Rightarrow> False"
    by (auto simp: well_formed_def list_all_iff)
  then show ?thesis
    by (cases "objects m ! snd col") (simp_all add: column_at_def object_at_def)
qed

lemma getitem_ref_values:
  assumes "getitem_ref name m = (res, m')" and "well_formed m"
  shows "getitem (dataframe_of m) name = map_sum id (object_at m') res"
proof -
  let ?g = "\<lambda>col. (fst col, column_at m (snd col))"
  have f: "filter (\<lambda>col. fst col = name) (dataframe_of m)
      = map ?g (filter (\<lambda>col. fst col = name) (table m))"
    by (simp add: dataframe_of_def filter_map comp_def)
  show ?thesis
  proof (cases "filter (\<lambda>col. fst col = name) (table m)")
    case Nil
    with assms(1) f show ?thesis by (auto simp: getitem_ref_def getitem_def)
  next
    case (Cons c cs)
    show ?thesis
    proof (cases cs)
      case Nil
      from Cons have "c \<in> set (filter (\<lambda>col. fst col = name) (table m))" by simp
      then have "c \<in> set (table m)" by simp
      with assms(2) have "object_at m (snd c) = Series (column_at m (snd c))"
        by (rule well_formed_series)
      with assms(1) f Cons Nil show ?thesis by (auto simp: getitem_ref_def getitem_def)
    next
      case (Cons d ds)
      obtain r m1 where n: "new_object (Frame (map ?g (c # d # ds))) m = (r, m1)"
        by (cases "new_object (Frame (map ?g (c # d # ds))) m")
      with assms(1) \<open>filter (\<lambda>col. fst col = name) (table m) = c # cs\<close> Cons
      have "res = Inr r" "m' = m1"
        by (simp_all add: getitem_ref_def)
      then have "map_sum id (object_at m') res = Inr (object_at m1 r)" by simp
      moreover from new_object_fresh [OF n]
      have "object_at m1 r = Frame (map ?g (c # d # ds))" by blast
      moreover from f \<open>filter (\<lambda>col. fst col = name) (table m) = c # cs\<close> Cons
      have "getitem (dataframe_of m) name = Inr (Frame (map ?g (c # d # ds)))"
        by (simp add: getitem_def)
      ultimately show ?thesis by simp
    qed
  qed
qed

lemma apply_categorical_mapping_ref_values:
  assumes "apply_categorical_mapping_ref to_float cm column_name m = (res, m')"
    and "well_formed m"
  shows "apply_categorical_mapping to_float cm (dataframe_of m) column_name
    = map_sum id (\<lambda>ret. (map_option (object_at m') (fst ret), snd ret)) res"
proof (cases "column_name \<notin> set (map fst (table m))")
  case True
  moreover have c: "columns (dataframe_of m) = map fst (table m)"
    by (simp add: columns_def dataframe_of_def comp_def)
  ultimately show ?thesis using assms(1)
    by (auto simp: apply_categorical_mapping_ref_def apply_categorical_mapping_def)
next
  case False
  have c: "columns (dataframe_of m) = map fst (table m)"
    by (simp add: columns_def dataframe_of_def comp_def)
  obtain g m1 where g: "getitem_ref column_name m = (g, m1)"
    by (cases "getitem_ref column_name m")
  from getitem_ref_values [OF g assms(2)]
  have gv: "getitem (dataframe_of m) column_name = map_sum id (object_at m1) g" .
  show ?thesis
  proof (cases g)
    case (Inl e)
    with assms(1) False g gv c show ?thesis
      by (auto simp: apply_categorical_mapping_ref_def apply_categorical_mapping_def
          split: option.splits)
  next
    case (Inr col)
    show ?thesis
    proof (cases "map_of (get_categorical_columns cm) column_name")
      case None
      with assms(1) False g gv c Inr show ?thesis
        by (auto simp: apply_categorical_mapping_ref_def apply_categorical_mapping_def)
    next
      case (Some cats)
      obtain series m2 where cp: "copy_ref col m1 = (series, m2)"
        by (cases "copy_ref col m1")
      obtain a m3 where a: "apply_mapping_ref to_float cats series m2 = (a, m3)"
        by (cases "apply_mapping_ref to_float cats series m2")
      from copy_ref_fresh [OF cp] have "object_at m2 series = object_at m1 col" by blast
      with apply_mapping_ref_values [OF a]
      have av: "apply_mapping to_float cats (object_at m1 col) = map_sum id (object_at m3) a"
        by (simp only:)
      from assms(1) False g Inr Some cp a have r: "m' = m3"
        "res = (case a of Inl e \<Rightarrow> Inl e | Inr result \<Rightarrow> Inr (Some result, []))"
        by (auto simp: apply_categorical_mapping_ref_def split: sum.splits)
      from False c gv Inr Some av r show ?thesis
        by (cases a) (auto simp: apply_categorical_mapping_def)
    qed
  qed
qed

end
